theory Spec2Isabelle
  imports Complex_Main
begin

section \<open>The ZeroMQ work manager: data model\<close>

text \<open>
  The module \<^verbatim>\<open>work_managers/zeromq.py\<close> has a server (the coordinator) with three
  threads, the dispatch, receive and announce loops, and a worker process with one loop.
  Messages are pickled Python objects, by the protocol tuples; the objects found in
  them are modelled by one datatype of Python values. A callable is named by the
  reference that pickle carries, an exception instance by its description.
\<close>

datatype pyval =
    PNone
  | PInt int
  | PStr string
  | PUuid nat
  | PFun string
  | PExc string
  | PTuple "pyval list"

text \<open>
  A task or result message is a pickled tuple (module docstring): the list of
  its elements, of any length.
\<close>

type_synonym message = "pyval list"

text \<open>
  What \<^verbatim>\<open>recv_pyobj()\<close> returns is whatever object the sender pickled. Either
  it is a sequence, which unpacks and slices as the list of its elements (a tuple, a
  list, a string), or it is an object that can be neither unpacked nor sliced (
  \<^verbatim>\<open>None\<close>, a number, a UUID, a function): on such an object both
  \<^verbatim>\<open>(a, b, c, d) = obj\<close> and \<^verbatim>\<open>obj[:5]\<close> raise \<^verbatim>\<open>TypeError\<close>.
\<close>

datatype received = Sequence message | Not_a_sequence

text \<open>What the module writes with \<^verbatim>\<open>log.error\<close>, one constructor per call site.\<close>

datatype log_entry =
    Malformed_result
  | Zombie_instance pyval pyval
  | Nonexistent_task pyval
  | Unknown_result_type pyval pyval
  | Malformed_task

text \<open>
  Exceptions that leave a loop: the \<^verbatim>\<open>ValueError\<close> the worker raises when a task
  comes from a second server, a \<^verbatim>\<open>TypeError\<close> (of an object that cannot be
  unpacked or sliced, or of an argument list that does not fit), and an exception of
  the task function that \<^verbatim>\<open>except Exception\<close> does not catch.
\<close>

datatype error =
    Second_server pyval pyval
  | TypeError
  | Uncaught pyval

text \<open>
  How the body of a \<^verbatim>\<open>while True\<close> loop ends: the loop goes on, the function
  returns, or an exception propagates. Each carries the state reached.
\<close>

datatype 'a flow = Continue 'a | Return 'a | Raise error 'a

fun state_of :: "'a flow \<Rightarrow> 'a" where
  "state_of (Continue s) = s"
| "state_of (Return s) = s"
| "state_of (Raise e s) = s"

fun unpack4 :: "'a list \<Rightarrow> ('a \<times> 'a \<times> 'a \<times> 'a) option" where
  "unpack4 [a, b, c, d] = Some (a, b, c, d)"
| "unpack4 _ = None"

fun unpack5 :: "'a list \<Rightarrow> ('a \<times> 'a \<times> 'a \<times> 'a \<times> 'a) option" where
  "unpack5 [a, b, c, d, e] = Some (a, b, c, d, e)"
| "unpack5 _ = None"

subsection \<open>Futures\<close>

datatype fstate = Pending | Fulfilled pyval | Failed pyval pyval

type_synonym fref = nat

text \<open>
  Modelled from the spec: the class \<^verbatim>\<open>WMFuture\<close> is imported from the package
  \<^verbatim>\<open>work_managers\<close> and is not part of the source. The spec gives it a
  set-result and a set-exception operation: a pending future is fulfilled with the
  payload, or failed with the pair of error value and traceback text.
  \<^verbatim>\<open>ft._set_exception(*payload)\<close> spreads the payload over the two parameters; a
  payload that is not such a pair does not fit the parameter list.
\<close>

definition set_result :: "pyval \<Rightarrow> fstate" where
  "set_result payload = Fulfilled payload"

fun set_exception :: "pyval \<Rightarrow> error + fstate" where
  "set_exception (PTuple [e, tb]) = Inr (Failed e tb)"
| "set_exception _ = Inl TypeError"

subsection \<open>The server\<close>

text \<open>
  The endpoints of one server: its four in-process control endpoints, whose names
  differ in their prefix and share the suffix \<^verbatim>\<open>id(self)\<close>, and the three
  public endpoints given to the constructor.
\<close>

datatype endpoint =
    Startup_ctl
  | Dispatch_thread_ctl
  | Receive_thread_ctl
  | Announce
  | Master_task
  | Master_result
  | Master_announce

text \<open>
  The fields of \<^verbatim>\<open>ZMQWMServer\<close>. \<open>futures\<close> is the store of the future objects
  that \<open>pending_futures\<close> refers to; \<open>zmq_context\<close> holds, for each control
  endpoint, the messages pushed to it; \<open>master_task_socket\<close> holds the task tuples sent
  on the task channel.
\<close>

record server =
  instance_id :: pyval
  server_heartbeat_interval :: real
  task_queue :: "message list"
  pending_futures :: "pyval \<rightharpoonup> fref"
  futures :: "fref \<Rightarrow> fstate"
  shutdown_signaled :: bool
  zmq_context :: "endpoint \<Rightarrow> string list"
  master_task_socket :: "message list"
  logged :: "log_entry list"

definition log_error :: "log_entry \<Rightarrow> server \<Rightarrow> server" where
  "log_error x s = s\<lparr>logged := logged s @ [x]\<rparr>"

subsection \<open>The receive loop (the collector)\<close>

text \<open>
  Lines 262 to 282: one object taken from the result socket. It is unpacked into four
  names: an object that cannot be unpacked raises \<^verbatim>\<open>TypeError\<close>, which
  \<^verbatim>\<open>except ValueError\<close> does not catch; a sequence of another length raises the
  \<^verbatim>\<open>ValueError\<close> that is caught and logged. Of a sequence of four, the instance
  check logs; then, in every case, the task id is popped from \<open>pending_futures\<close>.
\<close>

definition handle_result :: "server \<Rightarrow> received \<Rightarrow> server flow" where
  "handle_result s obj =
     (case obj of
        Not_a_sequence \<Rightarrow> Raise TypeError s
      | Sequence msg \<Rightarrow>
     (case unpack4 msg of
        None \<Rightarrow> Continue (log_error Malformed_result s)
      | Some (iid, task_id, result_type, payload) \<Rightarrow>
          let s1 = (if iid \<noteq> instance_id s
                    then log_error (Zombie_instance iid (instance_id s)) s else s)
          in (case pending_futures s1 task_id of
                None \<Rightarrow> Continue (log_error (Nonexistent_task task_id) s1)
              | Some ft \<Rightarrow>
                  let s2 = s1\<lparr>pending_futures := (pending_futures s1)(task_id := None)\<rparr>
                  in if result_type = PStr ''result''
                     then Continue (s2\<lparr>futures := (futures s2)(ft := set_result payload)\<rparr>)
                     else if result_type = PStr ''exception''
                     then (case set_exception payload of
                             Inl err \<Rightarrow> Raise err s2
                           | Inr st \<Rightarrow> Continue (s2\<lparr>futures := (futures s2)(ft := st)\<rparr>))
                     else Continue (log_error (Unknown_result_type result_type task_id) s2))))"

text \<open>
  One pass of the loop. The poll blocks until a socket is readable; what it found is
  the event: the messages drained from the control socket, if it was readable, and the
  object on the result socket, if it was readable.
\<close>

record recv_event =
  ctl_messages :: "string list option"
  result_message :: "received option"

definition shutdown_in :: "string list option \<Rightarrow> bool" where
  "shutdown_in ms = (case ms of None \<Rightarrow> False | Some xs \<Rightarrow> ''shutdown'' \<in> set xs)"

definition receive_body :: "server \<Rightarrow> recv_event \<Rightarrow> server flow" where
  "receive_body s ev =
     (if shutdown_in (ctl_messages ev) then Return s
      else (case result_message ev of
              None \<Rightarrow> Continue s
            | Some obj \<Rightarrow> handle_result s obj))"

text \<open>
  The loop over the events of a run. When the events are used up the thread is blocked
  in its poll. The \<^verbatim>\<open>finally\<close> clause closes the two sockets of the thread, which
  are local to it.
\<close>

fun receive_loop :: "server \<Rightarrow> recv_event list \<Rightarrow> server flow" where
  "receive_loop s [] = Continue s"
| "receive_loop s (ev # evs) =
     (case receive_body s ev of
        Continue s' \<Rightarrow> receive_loop s' evs
      | Return s' \<Rightarrow> Return s'
      | Raise e s' \<Rightarrow> Raise e s')"

subsection \<open>The worker process\<close>

text \<open>
  What \<^verbatim>\<open>fn(*args, **kwargs)\<close> does: it returns a value, it raises an instance of
  \<^verbatim>\<open>Exception\<close> (with the text \<^verbatim>\<open>traceback.format_exc()\<close> gives for it), or it
  raises something that is not an instance of \<^verbatim>\<open>Exception\<close>, such as
  \<^verbatim>\<open>SystemExit\<close> or \<^verbatim>\<open>KeyboardInterrupt\<close>. The behaviour of the callables
  is a parameter of the worker.
\<close>

datatype outcome =
    Returns pyval
  | Raises_Exception pyval string
  | Raises_other pyval

type_synonym calls = "pyval \<Rightarrow> pyval \<Rightarrow> pyval \<Rightarrow> outcome"

text \<open>
  The local variables of \<^verbatim>\<open>ZMQWMProcess.run\<close>: the remembered server, the two
  sockets (open or closed) with the result tuples sent, and the calls made.
\<close>

record worker =
  last_seen_server_id :: pyval
  task_socket_open :: bool
  result_socket_open :: bool
  result_socket :: "message list"
  invoked :: "(pyval \<times> pyval \<times> pyval) list"
  worker_logged :: "log_entry list"

definition worker_init :: worker where
  "worker_init = \<lparr>last_seen_server_id = PNone, task_socket_open = True,
     result_socket_open = True, result_socket = [], invoked = [], worker_logged = []\<rparr>"

text \<open>
  Lines 412 to 419: the task function is called and one result tuple is sent. An
  exception that \<^verbatim>\<open>except Exception\<close> does not catch propagates before anything
  is sent.
\<close>

definition execute_task ::
  "calls \<Rightarrow> worker \<Rightarrow> pyval \<Rightarrow> pyval \<Rightarrow> pyval \<Rightarrow> pyval \<Rightarrow> pyval \<Rightarrow> worker flow" where
  "execute_task call w server_id task_id fn args kwargs =
     (let w' = w\<lparr>invoked := invoked w @ [(fn, args, kwargs)]\<rparr>
      in (case call fn args kwargs of
            Raises_other b \<Rightarrow> Raise (Uncaught b) w'
          | Raises_Exception e tb \<Rightarrow>
              Continue (w'\<lparr>result_socket := result_socket w' @
                [[server_id, task_id, PStr ''exception'', PTuple [e, PStr tb]]]\<rparr>)
          | Returns result \<Rightarrow>
              Continue (w'\<lparr>result_socket := result_socket w' @
                [[server_id, task_id, PStr ''result'', result]]\<rparr>)))"

text \<open>
  Lines 396 to 419: the body of the loop for one received object. An object that
  cannot be sliced raises \<^verbatim>\<open>TypeError\<close>, which \<^verbatim>\<open>except ValueError\<close> does
  not catch. The first five elements of a sequence are unpacked; the server is
  remembered or compared.
\<close>

definition run_body :: "calls \<Rightarrow> worker \<Rightarrow> received \<Rightarrow> worker flow" where
  "run_body call w obj =
     (case obj of
        Not_a_sequence \<Rightarrow> Raise TypeError w
      | Sequence task_tuple \<Rightarrow>
     (case unpack5 (take 5 task_tuple) of
        None \<Rightarrow> Continue (w\<lparr>worker_logged := worker_logged w @ [Malformed_task]\<rparr>)
      | Some (server_id, task_id, fn, args, kwargs) \<Rightarrow>
          if last_seen_server_id w = PNone
          then execute_task call (w\<lparr>last_seen_server_id := server_id\<rparr>)
                 server_id task_id fn args kwargs
          else if last_seen_server_id w \<noteq> server_id
          then Raise (Second_server server_id (last_seen_server_id w)) w
          else execute_task call w server_id task_id fn args kwargs))"

text \<open>The \<^verbatim>\<open>finally\<close> clause of \<^verbatim>\<open>run\<close>: both sockets are closed.\<close>

definition close_sockets :: "worker \<Rightarrow> worker" where
  "close_sockets w = w\<lparr>result_socket_open := False, task_socket_open := False\<rparr>"

text \<open>
  The loop over the objects that arrive. When they are used up the worker is
  blocked in \<^verbatim>\<open>recv_pyobj\<close>, its sockets open.
\<close>

fun run :: "calls \<Rightarrow> worker \<Rightarrow> received list \<Rightarrow> worker flow" where
  "run call w [] = Continue w"
| "run call w (t # ts) =
     (case run_body call w t of
        Continue w' \<Rightarrow> run call w' ts
      | Return w' \<Rightarrow> Return (close_sockets w')
      | Raise e w' \<Rightarrow> Raise e (close_sockets w'))"

subsection \<open>Submission and the dispatch loop\<close>

text \<open>
  \<^verbatim>\<open>_signal_thread\<close>: a PUSH socket is connected to the endpoint, one message is
  sent and the socket is closed.
\<close>

definition signal_thread :: "server \<Rightarrow> endpoint \<Rightarrow> string \<Rightarrow> server" where
  "signal_thread s ep message =
     s\<lparr>zmq_context := (zmq_context s)(ep := zmq_context s ep @ [message])\<rparr>"

text \<open>
  \<^verbatim>\<open>_make_append_task\<close>. Modelled from the spec: \<^verbatim>\<open>WMFuture()\<close> is not part of
  the source; it makes a new pending future with a fresh task id. The new object and
  its task id are the parameter \<open>new\<close>.
\<close>

definition task_tuple_of :: "server \<Rightarrow> pyval \<Rightarrow> pyval \<Rightarrow> pyval \<Rightarrow> pyval \<Rightarrow> message" where
  "task_tuple_of s task_id fn args kwargs = [instance_id s, task_id, fn, args, kwargs]"

definition make_append_task ::
  "server \<Rightarrow> fref \<times> pyval \<Rightarrow> pyval \<Rightarrow> pyval \<Rightarrow> pyval \<Rightarrow> server" where
  "make_append_task s new fn args kwargs =
     (let (ft, task_id) = new
      in s\<lparr>futures := (futures s)(ft := Pending),
           pending_futures := (pending_futures s)(task_id \<mapsto> ft),
           task_queue := task_queue s @ [task_tuple_of s task_id fn args kwargs]\<rparr>)"

definition submit :: "server \<Rightarrow> fref \<times> pyval \<Rightarrow> pyval \<Rightarrow> pyval \<Rightarrow> pyval \<Rightarrow> server" where
  "submit s new fn args kwargs =
     signal_thread (make_append_task s new fn args kwargs) Dispatch_thread_ctl []"

type_synonym task = "(fref \<times> pyval) \<times> pyval \<times> pyval \<times> pyval"

definition submit_many :: "server \<Rightarrow> task list \<Rightarrow> server" where
  "submit_many s tasks =
     signal_thread
       (fold (\<lambda>(new, fn, args, kwargs) s'. make_append_task s' new fn args kwargs) tasks s)
       Dispatch_thread_ctl []"

text \<open>
  Lines 221 to 227, one pass of the inner loop: the head of the queue is removed and
  sent; \<open>None\<close> is the \<^verbatim>\<open>IndexError\<close> of an empty queue, which ends the loop.
\<close>

definition popleft_send :: "server \<Rightarrow> server option" where
  "popleft_send s =
     (case task_queue s of
        [] \<Rightarrow> None
      | task_tuple # rest \<Rightarrow>
          Some (s\<lparr>task_queue := rest,
                  master_task_socket := master_task_socket s @ [task_tuple]\<rparr>))"

text \<open>Lines 220 to 227, the inner loop: passes until the queue is empty.\<close>

function drain :: "server \<Rightarrow> server" where
  "drain s = (case popleft_send s of None \<Rightarrow> s | Some s' \<Rightarrow> drain s')"
  by pat_completeness auto
termination
  by (relation "measure (\<lambda>s. length (task_queue s))")
     (auto simp: popleft_send_def split: list.splits)

text \<open>
  One pass of the outer loop. The poll waits at most 100 ms; the event is what it
  found on the control socket: \<open>None\<close> after a timeout, else the messages drained.
  The \<^verbatim>\<open>finally\<close> clause closes the two sockets of the thread.
\<close>

definition dispatch_body :: "server \<Rightarrow> string list option \<Rightarrow> server flow" where
  "dispatch_body s ctl =
     (if shutdown_in ctl then Return s else Continue (drain s))"

fun dispatch_loop :: "server \<Rightarrow> string list option list \<Rightarrow> server flow" where
  "dispatch_loop s [] = Continue s"
| "dispatch_loop s (ctl # evs) =
     (case dispatch_body s ctl of
        Continue s' \<Rightarrow> dispatch_loop s' evs
      | Return s' \<Rightarrow> Return s'
      | Raise e s' \<Rightarrow> Raise e s')"

text \<open>
  The caller's thread and the dispatch thread work on the same queue. An interleaving
  of the two is a list of operations: a submission, or one pass of the inner loop of
  the dispatch thread, or one whole pass of its outer loop.
\<close>

datatype op =
    Submit "fref \<times> pyval" pyval pyval pyval
  | Submit_many "task list"
  | Popleft_send
  | Dispatch "string list option"

fun apply_op :: "server \<Rightarrow> op \<Rightarrow> server" where
  "apply_op s (Submit new fn args kwargs) = submit s new fn args kwargs"
| "apply_op s (Submit_many tasks) = submit_many s tasks"
| "apply_op s Popleft_send = (case popleft_send s of None \<Rightarrow> s | Some s' \<Rightarrow> s')"
| "apply_op s (Dispatch ctl) = state_of (dispatch_body s ctl)"

text \<open>The task tuples that the submissions among the operations append, in order.\<close>

fun appended :: "server \<Rightarrow> op \<Rightarrow> message list" where
  "appended s (Submit new fn args kwargs) = [task_tuple_of s (snd new) fn args kwargs]"
| "appended s (Submit_many tasks) =
     map (\<lambda>(new, fn, args, kwargs). task_tuple_of s (snd new) fn args kwargs) tasks"
| "appended s Popleft_send = []"
| "appended s (Dispatch ctl) = []"

subsection \<open>Shutdown\<close>

definition shutdown :: "server \<Rightarrow> server" where
  "shutdown s =
     (if \<not> shutdown_signaled s
      then fold (\<lambda>ep s'. signal_thread s' ep ''shutdown'')
             [Dispatch_thread_ctl, Receive_thread_ctl, Announce]
             (s\<lparr>shutdown_signaled := True\<rparr>)
      else s)"

subsection \<open>The announce loop\<close>

text \<open>
  The local variables of \<^verbatim>\<open>_announce_loop\<close>, with the strings sent on the
  announce socket. Times are the values of \<^verbatim>\<open>time.time()\<close>, in seconds.
\<close>

record announcer =
  last_announce :: real
  remaining_interval :: real
  master_announce_socket :: "string list"

definition announce_init :: "server \<Rightarrow> announcer" where
  "announce_init s = \<lparr>last_announce = 0,
     remaining_interval = server_heartbeat_interval s, master_announce_socket = []\<rparr>"

text \<open>
  What the poll of one pass found, and the clock readings of the pass: the control
  socket was readable (with the messages drained from it and the reading \<open>now\<close>), or
  the poll timed out (with the reading stored in \<open>last_announce\<close> and the reading
  \<open>now\<close>).
\<close>

datatype ann_event =
    Ctl_readable "string list" real
  | Timed_out real real

text \<open>Lines 324 to 328.\<close>

definition recompute :: "server \<Rightarrow> announcer \<Rightarrow> real \<Rightarrow> announcer" where
  "recompute s a now =
     (if now - last_announce a < server_heartbeat_interval s
      then a\<lparr>remaining_interval := now - last_announce a\<rparr>
      else a\<lparr>remaining_interval := server_heartbeat_interval s\<rparr>)"

definition announce_send :: "announcer \<Rightarrow> string list \<Rightarrow> announcer" where
  "announce_send a ms = a\<lparr>master_announce_socket := master_announce_socket a @ ms\<rparr>"

fun announce_body :: "server \<Rightarrow> announcer \<Rightarrow> ann_event \<Rightarrow> announcer flow" where
  "announce_body s a (Ctl_readable messages now) =
     (if ''shutdown'' \<in> set messages
      then Return (announce_send a [''shutdown''])
      else Continue (recompute s (announce_send a messages) now))"
| "announce_body s a (Timed_out t now) =
     Continue (recompute s (announce_send (a\<lparr>last_announce := t\<rparr>) [''ping'']) now)"

fun announce_loop :: "server \<Rightarrow> announcer \<Rightarrow> ann_event list \<Rightarrow> announcer flow" where
  "announce_loop s a [] = Continue a"
| "announce_loop s a (ev # evs) =
     (case announce_body s a ev of
        Continue a' \<Rightarrow> announce_loop s a' evs
      | Return a' \<Rightarrow> Return a'
      | Raise e a' \<Rightarrow> Raise e a')"

subsection \<open>The startup rendezvous\<close>

text \<open>
  \<^verbatim>\<open>startup()\<close> runs in the caller's thread and starts the three loop threads;
  the four threads then run side by side. The statements that matter for the
  rendezvous are modelled as steps of one state: each thread has a program counter
  that names its next statement, \<open>bound\<close> is the set of endpoints that are bound,
  \<open>rendezvous\<close> is the queue of the startup socket and \<open>acks_received\<close> is what
  \<^verbatim>\<open>startup()\<close> has read from it. An acknowledgment is an empty message; the
  queue records which loop sent it.
\<close>

datatype loop_id = Dispatcher | Collector | Announcer

text \<open>The public endpoint and the control endpoint that each loop binds.\<close>

fun public_endpoint :: "loop_id \<Rightarrow> endpoint" where
  "public_endpoint Dispatcher = Master_task"
| "public_endpoint Collector = Master_result"
| "public_endpoint Announcer = Master_announce"

fun ctl_endpoint :: "loop_id \<Rightarrow> endpoint" where
  "ctl_endpoint Dispatcher = Dispatch_thread_ctl"
| "ctl_endpoint Collector = Receive_thread_ctl"
| "ctl_endpoint Announcer = Announce"

text \<open>
  The statements of a loop thread before its \<^verbatim>\<open>while True\<close> (lines 199 to 207,
  237 to 245 and 293 to 301): bind the public socket, bind the control socket, signal
  the startup endpoint. The statements of \<^verbatim>\<open>startup()\<close> (lines 174 to 192): bind
  the startup socket, start the dispatch, the receive and the announce thread, three
  times \<^verbatim>\<open>ctlsocket.recv()\<close>, close the socket. A program counter names the
  statement that its thread runs next.
\<close>

datatype loop_pc = Not_started | Bind_public | Bind_ctl | Signal_startup | In_loop | Crashed

datatype main_pc =
    Bind_startup
  | Start_dispatch
  | Start_receive
  | Start_announce
  | Recv_first
  | Recv_second
  | Recv_third
  | Close_startup
  | Returned

record startup_state =
  main :: main_pc
  loop :: "loop_id \<Rightarrow> loop_pc"
  bound :: "endpoint set"
  rendezvous :: "loop_id list"
  acks_received :: "loop_id list"

definition startup_init :: startup_state where
  "startup_init = \<lparr>main = Bind_startup, loop = (\<lambda>_. Not_started), bound = {},
     rendezvous = [], acks_received = []\<rparr>"

text \<open>
  One step of the caller's thread. \<^verbatim>\<open>ctlsocket.recv()\<close> blocks while the queue is
  empty: the thread has no step then.
\<close>

definition start_thread :: "loop_id \<Rightarrow> main_pc \<Rightarrow> startup_state \<Rightarrow> startup_state" where
  "start_thread l pc s = s\<lparr>main := pc, loop := (loop s)(l := Bind_public)\<rparr>"

definition ctl_recv :: "main_pc \<Rightarrow> startup_state \<Rightarrow> startup_state option" where
  "ctl_recv pc s =
     (case rendezvous s of
        [] \<Rightarrow> None
      | a # rest \<Rightarrow>
          Some (s\<lparr>main := pc, rendezvous := rest, acks_received := acks_received s @ [a]\<rparr>))"

fun main_step :: "main_pc \<Rightarrow> startup_state \<Rightarrow> startup_state option" where
  "main_step Bind_startup s =
     Some (s\<lparr>main := Start_dispatch, bound := insert Startup_ctl (bound s)\<rparr>)"
| "main_step Start_dispatch s = Some (start_thread Dispatcher Start_receive s)"
| "main_step Start_receive s = Some (start_thread Collector Start_announce s)"
| "main_step Start_announce s = Some (start_thread Announcer Recv_first s)"
| "main_step Recv_first s = ctl_recv Recv_second s"
| "main_step Recv_second s = ctl_recv Recv_third s"
| "main_step Recv_third s = ctl_recv Close_startup s"
| "main_step Close_startup s =
     Some (s\<lparr>main := Returned, bound := bound s - {Startup_ctl}\<rparr>)"
| "main_step Returned s = None"

text \<open>
  One step of a loop thread. A thread that is not started has no step. Signalling
  connects to the startup endpoint, which fails if nothing is bound there.
\<close>

fun loop_step :: "loop_id \<Rightarrow> loop_pc \<Rightarrow> startup_state \<Rightarrow> startup_state option" where
  "loop_step l Not_started s = None"
| "loop_step l Bind_public s =
     Some (s\<lparr>loop := (loop s)(l := Bind_ctl),
             bound := insert (public_endpoint l) (bound s)\<rparr>)"
| "loop_step l Bind_ctl s =
     Some (s\<lparr>loop := (loop s)(l := Signal_startup),
             bound := insert (ctl_endpoint l) (bound s)\<rparr>)"
| "loop_step l Signal_startup s =
     (if Startup_ctl \<in> bound s
      then Some (s\<lparr>loop := (loop s)(l := In_loop), rendezvous := rendezvous s @ [l]\<rparr>)
      else Some (s\<lparr>loop := (loop s)(l := Crashed)\<rparr>))"
| "loop_step l In_loop s = Some s"
| "loop_step l Crashed s = None"

text \<open>
  A run is a list of threads, the order in which they take their steps; \<open>None\<close>
  when a thread is chosen that cannot move.
\<close>

datatype thread = Main | Loop loop_id

fun thread_step :: "thread \<Rightarrow> startup_state \<Rightarrow> startup_state option" where
  "thread_step Main s = main_step (main s) s"
| "thread_step (Loop l) s = loop_step l (loop s l) s"

fun schedule :: "startup_state \<Rightarrow> thread list \<Rightarrow> startup_state option" where
  "schedule s [] = Some s"
| "schedule s (t # ts) =
     (case thread_step t s of None \<Rightarrow> None | Some s' \<Rightarrow> schedule s' ts)"

text \<open>
  The invariant: what \<^verbatim>\<open>startup()\<close> has read and what is queued are, without
  repetition, the loops that have signalled; the count of reads follows the program
  counter; the startup endpoint is bound from its bind to its close; the loops started
  follow the program counter; no loop has failed; a loop past a bind has its endpoint
  bound.
\<close>

fun acks_expected :: "main_pc \<Rightarrow> nat" where
  "acks_expected Recv_second = 1"
| "acks_expected Recv_third = 2"
| "acks_expected Close_startup = 3"
| "acks_expected Returned = 3"
| "acks_expected _ = 0"

fun started_by :: "main_pc \<Rightarrow> loop_id set" where
  "started_by Bind_startup = {}"
| "started_by Start_dispatch = {}"
| "started_by Start_receive = {Dispatcher}"
| "started_by Start_announce = {Dispatcher, Collector}"
| "started_by _ = {Dispatcher, Collector, Announcer}"

definition startup_inv :: "startup_state \<Rightarrow> bool" where
  "startup_inv s \<longleftrightarrow>
     distinct (acks_received s @ rendezvous s)
   \<and> (\<forall>l. l \<in> set (acks_received s @ rendezvous s) \<longleftrightarrow> loop s l = In_loop)
   \<and> length (acks_received s) = acks_expected (main s)
   \<and> (Startup_ctl \<in> bound s \<longleftrightarrow> main s \<noteq> Bind_startup \<and> main s \<noteq> Returned)
   \<and> (\<forall>l. loop s l \<noteq> Not_started \<longleftrightarrow> l \<in> started_by (main s))
   \<and> (\<forall>l. loop s l \<noteq> Crashed)
   \<and> (\<forall>l. loop s l = Bind_ctl \<or> loop s l = Signal_startup \<or> loop s l = In_loop
          \<longrightarrow> public_endpoint l \<in> bound s)
   \<and> (\<forall>l. loop s l = Signal_startup \<or> loop s l = In_loop
          \<longrightarrow> ctl_endpoint l \<in> bound s)"

subsection \<open>Concrete inputs\<close>

text \<open>
  A server with instance id 1 and one pending future, registered under task id 7, and
  a table of task functions: \<^verbatim>\<open>add\<close> and \<^verbatim>\<open>div\<close> on two integers, and
  \<^verbatim>\<open>sys.exit\<close>, which raises \<^verbatim>\<open>SystemExit\<close>.
\<close>

definition example_server :: server where
  "example_server = \<lparr>instance_id = PUuid 1, server_heartbeat_interval = 10,
     task_queue = [], pending_futures = [PInt 7 \<mapsto> 0], futures = (\<lambda>_. Pending),
     shutdown_signaled = False, zmq_context = (\<lambda>_. []), master_task_socket = [],
     logged = []\<rparr>"

fun int_pair :: "pyval \<Rightarrow> (int \<times> int) option" where
  "int_pair (PTuple [PInt x, PInt y]) = Some (x, y)"
| "int_pair _ = None"

definition example_call :: calls where
  "example_call fn args kwargs =
     (if fn = PFun ''sys.exit'' then Raises_other (PExc ''SystemExit'')
      else (case int_pair args of
              None \<Rightarrow> Raises_Exception (PExc ''TypeError'') ''Traceback''
            | Some (x, y) \<Rightarrow>
                if fn = PFun ''add'' then Returns (PInt (x + y))
                else if fn = PFun ''div'' \<and> y \<noteq> 0 then Returns (PInt (x div y))
                else if fn = PFun ''div'' then
                  Raises_Exception (PExc ''ZeroDivisionError'') ''Traceback''
                else Raises_Exception (PExc ''TypeError'') ''Traceback''))"

text \<open>An order of steps in which the receive loop is the first to signal.\<close>

definition example_schedule :: "thread list" where
  "example_schedule =
     [Main, Main, Loop Dispatcher, Main, Loop Collector, Loop Collector, Main,
      Loop Announcer, Loop Collector, Loop Dispatcher, Main, Loop Announcer,
      Loop Dispatcher, Main, Loop Announcer, Main, Main]"

section \<open>Properties\<close>

subsection \<open>Unpacking\<close>

lemma unpack4_None: "unpack4 xs = None \<longleftrightarrow> length xs \<noteq> 4"
  by (cases xs rule: unpack4.cases) auto

lemma unpack5_None: "unpack5 xs = None \<longleftrightarrow> length xs \<noteq> 5"
  by (cases xs rule: unpack5.cases) auto

lemma unpack5_take: "unpack5 (take 5 xs) = None \<longleftrightarrow> length xs < 5"
  by (auto simp: unpack5_None)

subsection \<open>The receive loop\<close>

text \<open>
  The instance check does not decide what follows: a result for a pending task, of
  type \<^verbatim>\<open>'result'\<close>, fulfils the future whether or not its instance id is the
  server's own; a foreign instance id adds a log entry.
\<close>

lemma handle_result_fulfils:
  assumes "pending_futures s task_id = Some ft"
  shows "handle_result s (Sequence [iid, task_id, PStr ''result'', payload])
         = Continue ((if iid \<noteq> instance_id s
                      then log_error (Zombie_instance iid (instance_id s)) s else s)
             \<lparr>pending_futures := (pending_futures s)(task_id := None),
              futures := (futures s)(ft := Fulfilled payload)\<rparr>)"
  using assms by (simp add: handle_result_def log_error_def set_result_def Let_def)

text \<open>
  Claim C1 says that a result whose instance id is not the server's own never resolves
  a future. The instance check of \<open>handle_result\<close> only logs: the pop of the task
  id follows in every case. Here a result from instance 2 reaches the server with
  instance 1, whose future for task 7 is pending; the future is removed from the
  registry and fulfilled.
\<close>

theorem foreign_result_resolves_future:
  "instance_id example_server \<noteq> PUuid 2
   \<and> pending_futures example_server (PInt 7) = Some 0
   \<and> futures example_server 0 = Pending
   \<and> handle_result example_server (Sequence [PUuid 2, PInt 7, PStr ''result'', PInt 42])
       = Continue (example_server\<lparr>
           logged := [Zombie_instance (PUuid 2) (PUuid 1)],
           pending_futures := Map.empty,
           futures := (\<lambda>_. Pending)(0 := Fulfilled (PInt 42))\<rparr>)"
  by (simp add: example_server_def handle_result_def log_error_def set_result_def Let_def)

lemma handle_result_pending:
  "pending_futures (state_of (handle_result s obj)) \<subseteq>\<^sub>m pending_futures s"
  by (auto simp: handle_result_def log_error_def Let_def map_le_def
      split: received.splits option.splits sum.splits)

lemma handle_result_futures:
  assumes "ft \<notin> ran (pending_futures s)"
  shows "futures (state_of (handle_result s obj)) ft = futures s ft"
  using assms
  by (auto simp: handle_result_def log_error_def Let_def ran_def
      split: received.splits option.splits sum.splits)

lemma receive_body_pending:
  "pending_futures (state_of (receive_body s ev)) \<subseteq>\<^sub>m pending_futures s"
  by (simp add: receive_body_def handle_result_pending split: option.splits)

lemma receive_body_futures:
  assumes "ft \<notin> ran (pending_futures s)"
  shows "futures (state_of (receive_body s ev)) ft = futures s ft"
  using assms by (simp add: receive_body_def handle_result_futures split: option.splits)

lemma map_le_ran: "m' \<subseteq>\<^sub>m m \<Longrightarrow> ran m' \<subseteq> ran m"
  by (auto simp: ran_def map_le_def dom_def) metis

lemma map_le_None: "m' \<subseteq>\<^sub>m m \<Longrightarrow> m k = None \<Longrightarrow> m' k = None"
  by (cases "m' k") (auto simp: map_le_def dom_def)

lemma receive_loop_step:
  "state_of (receive_loop s (ev # evs)) =
     (case receive_body s ev of
        Continue s' \<Rightarrow> state_of (receive_loop s' evs)
      | Return s' \<Rightarrow> s' | Raise e s' \<Rightarrow> s')"
  by (simp split: flow.splits)

lemma receive_loop_frame:
  "pending_futures (state_of (receive_loop s evs)) \<subseteq>\<^sub>m pending_futures s
   \<and> (ft \<notin> ran (pending_futures s) \<longrightarrow>
        futures (state_of (receive_loop s evs)) ft = futures s ft)"
proof (induction evs arbitrary: s)
  case Nil
  show ?case by simp
next
  case (Cons ev evs)
  let ?r = "receive_body s ev"
  have le: "pending_futures (state_of ?r) \<subseteq>\<^sub>m pending_futures s"
    by (rule receive_body_pending)
  have fr: "ft \<notin> ran (pending_futures s) \<Longrightarrow> futures (state_of ?r) ft = futures s ft"
    by (rule receive_body_futures)
  show ?case
  proof (cases ?r)
    case (Continue s')
    with le have le': "pending_futures s' \<subseteq>\<^sub>m pending_futures s" by simp
    from Cons.IH [of s'] have
      a: "pending_futures (state_of (receive_loop s' evs)) \<subseteq>\<^sub>m pending_futures s'"
      and b: "ft \<notin> ran (pending_futures s') \<Longrightarrow>
        futures (state_of (receive_loop s' evs)) ft = futures s' ft"
      by simp_all
    from a le' have "pending_futures (state_of (receive_loop s' evs)) \<subseteq>\<^sub>m pending_futures s"
      by (rule map_le_trans)
    moreover have "futures (state_of (receive_loop s' evs)) ft = futures s ft"
      if "ft \<notin> ran (pending_futures s)"
    proof -
      from that map_le_ran [OF le'] have "ft \<notin> ran (pending_futures s')" by blast
      with b fr [OF that] Continue show ?thesis by simp
    qed
    ultimately show ?thesis using Continue by simp
  next
    case (Return s')
    with le fr show ?thesis by simp
  next
    case (Raise e s')
    with le fr show ?thesis by simp
  qed
qed

text \<open>
  Claim C9: a well-formed result whose task id has a pending future and whose result
  type is neither \<^verbatim>\<open>'result'\<close> nor \<^verbatim>\<open>'exception'\<close> removes the future from
  the registry and only logs: no future changes. The removal is permanent: if the
  future is registered under no other task id, then whatever the receive loop reads
  later, the task id stays absent and the future stays as it was.
\<close>

theorem unknown_result_type_discards_future:
  assumes "pending_futures s task_id = Some ft"
      and "result_type \<noteq> PStr ''result''"
      and "result_type \<noteq> PStr ''exception''"
  shows "handle_result s (Sequence [iid, task_id, result_type, payload])
           = Continue (log_error (Unknown_result_type result_type task_id)
               ((if iid \<noteq> instance_id s
                 then log_error (Zombie_instance iid (instance_id s)) s else s)
                \<lparr>pending_futures := (pending_futures s)(task_id := None)\<rparr>))
       \<and> pending_futures (state_of (handle_result s (Sequence [iid, task_id, result_type, payload])))
           = (pending_futures s)(task_id := None)
       \<and> futures (state_of (handle_result s (Sequence [iid, task_id, result_type, payload])))
           = futures s
       \<and> (ft \<notin> ran ((pending_futures s)(task_id := None)) \<longrightarrow>
            (\<forall>evs.
               pending_futures (state_of (receive_loop
                 (state_of (handle_result s (Sequence [iid, task_id, result_type, payload]))) evs))
                 task_id = None
             \<and> futures (state_of (receive_loop
                 (state_of (handle_result s (Sequence [iid, task_id, result_type, payload]))) evs)) ft
                 = futures s ft))"
proof -
  let ?s' = "state_of (handle_result s (Sequence [iid, task_id, result_type, payload]))"
  have eq: "handle_result s (Sequence [iid, task_id, result_type, payload])
           = Continue (log_error (Unknown_result_type result_type task_id)
               ((if iid \<noteq> instance_id s
                 then log_error (Zombie_instance iid (instance_id s)) s else s)
                \<lparr>pending_futures := (pending_futures s)(task_id := None)\<rparr>))"
    using assms by (simp add: handle_result_def log_error_def Let_def)
  have p: "pending_futures ?s' = (pending_futures s)(task_id := None)"
    by (simp add: eq log_error_def)
  have f: "futures ?s' = futures s"
    by (simp add: eq log_error_def)
  have later: "pending_futures (state_of (receive_loop ?s' evs)) task_id = None
      \<and> futures (state_of (receive_loop ?s' evs)) ft = futures s ft"
    if "ft \<notin> ran ((pending_futures s)(task_id := None))" for evs
  proof -
    from receive_loop_frame [of ?s' evs ft] that p f
    have le: "pending_futures (state_of (receive_loop ?s' evs)) \<subseteq>\<^sub>m pending_futures ?s'"
      and fr: "futures (state_of (receive_loop ?s' evs)) ft = futures s ft"
      by simp_all
    have "pending_futures ?s' task_id = None" by (simp add: p)
    with le have "pending_futures (state_of (receive_loop ?s' evs)) task_id = None"
      by (rule map_le_None)
    with fr show ?thesis by simp
  qed
  show ?thesis
  proof (intro conjI impI allI)
    show "handle_result s (Sequence [iid, task_id, result_type, payload])
           = Continue (log_error (Unknown_result_type result_type task_id)
               ((if iid \<noteq> instance_id s
                 then log_error (Zombie_instance iid (instance_id s)) s else s)
                \<lparr>pending_futures := (pending_futures s)(task_id := None)\<rparr>))"
      by (rule eq)
    show "pending_futures ?s' = (pending_futures s)(task_id := None)"
      by (rule p)
    show "futures ?s' = futures s"
      by (rule f)
  next
    fix evs
    assume "ft \<notin> ran ((pending_futures s)(task_id := None))"
    then show "pending_futures (state_of (receive_loop ?s' evs)) task_id = None"
      and "futures (state_of (receive_loop ?s' evs)) ft = futures s ft"
      using later [of evs] by simp_all
  qed
qed

theorem unknown_result_type_discards_future_witness:
  "handle_result example_server (Sequence [PUuid 1, PInt 7, PStr ''partial'', PInt 42])
     = Continue (example_server\<lparr>pending_futures := Map.empty,
         logged := [Unknown_result_type (PStr ''partial'') (PInt 7)]\<rparr>)
   \<and> futures (state_of (receive_loop
        (state_of (handle_result example_server (Sequence [PUuid 1, PInt 7, PStr ''partial'', PInt 42])))
        [\<lparr>ctl_messages = None,
          result_message = Some (Sequence [PUuid 1, PInt 7, PStr ''result'', PInt 42])\<rparr>])) 0
     = Pending"
proof -
  have a: "pending_futures example_server (PInt 7) = Some 0"
    by (simp add: example_server_def)
  have b: "PStr ''partial'' \<noteq> PStr ''result''" "PStr ''partial'' \<noteq> PStr ''exception''"
    by simp_all
  have c: "0 \<notin> ran ((pending_futures example_server)(PInt 7 := None))"
    by (simp add: example_server_def)
  have d: "futures example_server 0 = Pending"
    by (simp add: example_server_def)
  have e: "log_error (Unknown_result_type (PStr ''partial'') (PInt 7))
             ((if PUuid 1 \<noteq> instance_id example_server
               then log_error (Zombie_instance (PUuid 1) (instance_id example_server))
                      example_server
               else example_server)
              \<lparr>pending_futures := (pending_futures example_server)(PInt 7 := None)\<rparr>)
           = example_server\<lparr>pending_futures := Map.empty,
               logged := [Unknown_result_type (PStr ''partial'') (PInt 7)]\<rparr>"
    by (simp add: example_server_def log_error_def)
  note t = unknown_result_type_discards_future [OF a b, of "PUuid 1" "PInt 42"]
  from t have "handle_result example_server (Sequence [PUuid 1, PInt 7, PStr ''partial'', PInt 42])
     = Continue (example_server\<lparr>pending_futures := Map.empty,
         logged := [Unknown_result_type (PStr ''partial'') (PInt 7)]\<rparr>)"
    unfolding e by (rule conjunct1)
  moreover from t c have "futures (state_of (receive_loop
        (state_of (handle_result example_server (Sequence [PUuid 1, PInt 7, PStr ''partial'', PInt 42])))
        [\<lparr>ctl_messages = None,
          result_message = Some (Sequence [PUuid 1, PInt 7, PStr ''result'', PInt 42])\<rparr>])) 0
     = futures example_server 0"
    by blast
  ultimately show ?thesis
    by (simp only: d simp_thms)
qed

subsection \<open>The announce loop\<close>

text \<open>
  What \<open>recompute\<close> leaves after an early wake by control messages other than
  \<^verbatim>\<open>'shutdown'\<close>: the elapsed time, not the time that remains.
\<close>

lemma early_wake_stores_elapsed_time:
  assumes "''shutdown'' \<notin> set messages"
      and "now - last_announce a < server_heartbeat_interval s"
  shows "announce_body s a (Ctl_readable messages now)
         = Continue (a\<lparr>master_announce_socket := master_announce_socket a @ messages,
                        remaining_interval := now - last_announce a\<rparr>)"
  using assms by (simp add: recompute_def announce_send_def)

text \<open>
  Claim C2 says that after an early wake at elapsed time \<open>e\<close> the next poll waits
  for the remaining time \<open>H - e\<close>. The loop stores the elapsed time itself. With a
  period of 10, the first heartbeat goes out at 1010 and a control message wakes the
  loop at 1013: the next poll is given a timeout of 3 where 7 remain. (After the
  heartbeat itself the timeout was 0.)
\<close>

theorem early_wake_timeout_is_elapsed_time:
  "server_heartbeat_interval example_server = 10
   \<and> announce_loop example_server (announce_init example_server) [Timed_out 1010 1010]
     = Continue \<lparr>last_announce = 1010, remaining_interval = 0,
         master_announce_socket = [''ping'']\<rparr>
   \<and> announce_loop example_server (announce_init example_server)
       [Timed_out 1010 1010, Ctl_readable [''hello''] 1013]
     = Continue \<lparr>last_announce = 1010, remaining_interval = 3,
         master_announce_socket = [''ping'', ''hello'']\<rparr>
   \<and> server_heartbeat_interval example_server - (1013 - 1010) = 7"
  by (simp add: example_server_def announce_init_def recompute_def announce_send_def)

subsection \<open>The worker loop\<close>

lemma run_body_second_server:
  assumes "last_seen_server_id w = PUuid a" and "B \<noteq> PUuid a"
  shows "run_body call w (Sequence (B # task_id # fn # args # kwargs # extra))
         = Raise (Second_server B (PUuid a)) w"
  using assms by (simp add: run_body_def)

text \<open>
  Claim C3: once a task of server \<open>A\<close> has been processed, so that \<open>A\<close> is the
  remembered server, a well-formed task tuple of another server \<open>B\<close> ends the loop
  with the \<^verbatim>\<open>ValueError\<close>. Both sockets are closed, the task function is not
  called, nothing is sent, and the tuples that follow are not read. The instance id of
  a server is a UUID.
\<close>

theorem second_server_terminates_worker:
  assumes "last_seen_server_id w = PUuid a" and "B \<noteq> PUuid a"
  shows "run call w (Sequence (B # task_id # fn # args # kwargs # extra) # ts)
           = Raise (Second_server B (PUuid a)) (close_sockets w)
         \<and> invoked (close_sockets w) = invoked w
         \<and> result_socket (close_sockets w) = result_socket w
         \<and> \<not> task_socket_open (close_sockets w)
         \<and> \<not> result_socket_open (close_sockets w)"
  using assms by (simp add: run_body_second_server close_sockets_def)

theorem second_server_terminates_worker_witness:
  "last_seen_server_id (state_of (run example_call worker_init
       [Sequence [PUuid 1, PInt 7, PFun ''add'', PTuple [PInt 2, PInt 3], PTuple []]])) = PUuid 1
   \<and> run example_call worker_init
       [Sequence [PUuid 1, PInt 7, PFun ''add'', PTuple [PInt 2, PInt 3], PTuple []],
        Sequence [PUuid 2, PInt 8, PFun ''add'', PTuple [PInt 1, PInt 1], PTuple []]]
     = Raise (Second_server (PUuid 2) (PUuid 1))
         \<lparr>last_seen_server_id = PUuid 1, task_socket_open = False,
          result_socket_open = False,
          result_socket = [[PUuid 1, PInt 7, PStr ''result'', PInt 5]],
          invoked = [(PFun ''add'', PTuple [PInt 2, PInt 3], PTuple [])],
          worker_logged = []\<rparr>"
  using second_server_terminates_worker [of
      "state_of (run example_call worker_init
         [Sequence [PUuid 1, PInt 7, PFun ''add'', PTuple [PInt 2, PInt 3], PTuple []]])"
      1 "PUuid 2" example_call "PInt 8" "PFun ''add''" "PTuple [PInt 1, PInt 1]" "PTuple []" "[]" "[]"]
  by (simp add: run_body_def execute_task_def worker_init_def close_sockets_def example_call_def)

text \<open>
  A task function that raises outside \<^verbatim>\<open>Exception\<close> ends the loop: the task
  \<^verbatim>\<open>sys.exit\<close> leaves the worker with both sockets closed and no result sent, and
  the next task is not read.
\<close>

theorem task_function_exit_terminates_worker:
  "example_call (PFun ''sys.exit'') (PTuple []) (PTuple []) = Raises_other (PExc ''SystemExit'')
   \<and> run example_call (worker_init\<lparr>last_seen_server_id := PUuid 1\<rparr>)
       [Sequence [PUuid 1, PInt 7, PFun ''sys.exit'', PTuple [], PTuple []],
        Sequence [PUuid 1, PInt 8, PFun ''add'', PTuple [PInt 2, PInt 3], PTuple []]]
     = Raise (Uncaught (PExc ''SystemExit''))
         \<lparr>last_seen_server_id = PUuid 1, task_socket_open = False,
          result_socket_open = False, result_socket = [],
          invoked = [(PFun ''sys.exit'', PTuple [], PTuple [])],
          worker_logged = []\<rparr>"
  by (simp add: run_body_def execute_task_def worker_init_def close_sockets_def
      example_call_def)

lemma run_body_execute:
  assumes "last_seen_server_id w = PNone \<or> last_seen_server_id w = server_id"
  shows "run_body call w (Sequence (server_id # task_id # fn # args # kwargs # extra))
         = execute_task call (w\<lparr>last_seen_server_id := server_id\<rparr>)
             server_id task_id fn args kwargs"
proof (cases "last_seen_server_id w = PNone")
  case True
  then show ?thesis by (simp add: run_body_def)
next
  case False
  with assms have eq: "last_seen_server_id w = server_id" by simp
  then have upd: "w\<lparr>last_seen_server_id := server_id\<rparr> = w" by (cases w) simp
  show ?thesis unfolding upd using False eq by (simp add: run_body_def)
qed

text \<open>
  Claim C4, amended: for a well-formed task tuple whose server is the remembered one
  (or the first one seen), one pass of the loop calls the task function once and sends
  exactly one result tuple, \<open>(server_id, task_id, 'result', v)\<close> when the function
  returns \<open>v\<close>, and \<open>(server_id, task_id, 'exception', (e, trace_text))\<close> when it
  raises an instance \<open>e\<close> of \<^verbatim>\<open>Exception\<close>; in both cases the loop goes on with
  the next tuple.
\<close>

theorem one_result_per_task:
  assumes "last_seen_server_id w = PNone \<or> last_seen_server_id w = server_id"
  shows "(call fn args kwargs = Returns v \<longrightarrow>
            run call w (Sequence (server_id # task_id # fn # args # kwargs # extra) # ts)
            = run call (w\<lparr>last_seen_server_id := server_id,
                  invoked := invoked w @ [(fn, args, kwargs)],
                  result_socket := result_socket w @
                    [[server_id, task_id, PStr ''result'', v]]\<rparr>) ts)
       \<and> (call fn args kwargs = Raises_Exception e trace_text \<longrightarrow>
            run call w (Sequence (server_id # task_id # fn # args # kwargs # extra) # ts)
            = run call (w\<lparr>last_seen_server_id := server_id,
                  invoked := invoked w @ [(fn, args, kwargs)],
                  result_socket := result_socket w @
                    [[server_id, task_id, PStr ''exception'',
                      PTuple [e, PStr trace_text]]]\<rparr>) ts)"
  by (simp add: run_body_execute [OF assms] execute_task_def)

theorem one_result_per_task_witness:
  "run example_call (worker_init\<lparr>last_seen_server_id := PUuid 1\<rparr>)
     [Sequence [PUuid 1, PInt 7, PFun ''add'', PTuple [PInt 2, PInt 3], PTuple []]]
   = Continue \<lparr>last_seen_server_id = PUuid 1, task_socket_open = True,
       result_socket_open = True,
       result_socket = [[PUuid 1, PInt 7, PStr ''result'', PInt 5]],
       invoked = [(PFun ''add'', PTuple [PInt 2, PInt 3], PTuple [])],
       worker_logged = []\<rparr>
   \<and> run example_call (worker_init\<lparr>last_seen_server_id := PUuid 1\<rparr>)
     [Sequence [PUuid 1, PInt 8, PFun ''div'', PTuple [PInt 1, PInt 0], PTuple []]]
   = Continue \<lparr>last_seen_server_id = PUuid 1, task_socket_open = True,
       result_socket_open = True,
       result_socket = [[PUuid 1, PInt 8, PStr ''exception'',
         PTuple [PExc ''ZeroDivisionError'', PStr ''Traceback'']]],
       invoked = [(PFun ''div'', PTuple [PInt 1, PInt 0], PTuple [])],
       worker_logged = []\<rparr>"
  using one_result_per_task [of "worker_init\<lparr>last_seen_server_id := PUuid 1\<rparr>" "PUuid 1"
      example_call "PFun ''add''" "PTuple [PInt 2, PInt 3]" "PTuple []" "PInt 5"
      "PInt 7" "[]" "[]" "PExc ''none''" "''none''"]
    one_result_per_task [of "worker_init\<lparr>last_seen_server_id := PUuid 1\<rparr>" "PUuid 1"
      example_call "PFun ''div''" "PTuple [PInt 1, PInt 0]" "PTuple []" "PInt 0"
      "PInt 8" "[]" "[]" "PExc ''ZeroDivisionError''" "''Traceback''"]
  by (simp add: worker_init_def example_call_def)

subsection \<open>Shutdown\<close>

lemma signal_thread_fields [simp]:
  "shutdown_signaled (signal_thread s ep m) = shutdown_signaled s"
  "zmq_context (signal_thread s ep m) ep' =
     (if ep' = ep then zmq_context s ep @ [m] else zmq_context s ep')"
  by (simp_all add: signal_thread_def)

text \<open>
  Claim C5: the first call of \<open>shutdown\<close> (the guard flag is not set) pushes
  exactly one \<^verbatim>\<open>'shutdown'\<close> to each of the three control endpoints and nothing
  to the startup endpoint, sets the guard flag and changes no other field. After a
  call the flag is set, and a call with the flag set returns the state as it is: any
  number of further calls leave the state as the first call left it.
\<close>

theorem shutdown_idempotent:
  "(\<not> shutdown_signaled s \<longrightarrow>
      zmq_context (shutdown s) Dispatch_thread_ctl
        = zmq_context s Dispatch_thread_ctl @ [''shutdown'']
    \<and> zmq_context (shutdown s) Receive_thread_ctl
        = zmq_context s Receive_thread_ctl @ [''shutdown'']
    \<and> zmq_context (shutdown s) Announce = zmq_context s Announce @ [''shutdown'']
    \<and> zmq_context (shutdown s) Startup_ctl = zmq_context s Startup_ctl
    \<and> shutdown s = s\<lparr>shutdown_signaled := True,
                      zmq_context := zmq_context (shutdown s)\<rparr>)
   \<and> shutdown_signaled (shutdown s)
   \<and> (shutdown_signaled s \<longrightarrow> shutdown s = s)
   \<and> (\<forall>n. (shutdown ^^ Suc n) (shutdown s) = shutdown s)"
proof -
  have sig: "shutdown_signaled (shutdown s)"
    by (simp add: shutdown_def)
  have noop: "shutdown s' = s'" if "shutdown_signaled s'" for s'
    using that by (simp add: shutdown_def)
  have "(shutdown ^^ Suc n) (shutdown s) = shutdown s" for n
    by (induction n) (simp_all add: noop [OF sig])
  moreover have "shutdown s = s\<lparr>shutdown_signaled := True,
      zmq_context := zmq_context (shutdown s)\<rparr>" if "\<not> shutdown_signaled s"
    using that by (simp add: shutdown_def signal_thread_def)
  moreover have "zmq_context (shutdown s) Dispatch_thread_ctl
        = zmq_context s Dispatch_thread_ctl @ [''shutdown'']
    \<and> zmq_context (shutdown s) Receive_thread_ctl
        = zmq_context s Receive_thread_ctl @ [''shutdown'']
    \<and> zmq_context (shutdown s) Announce = zmq_context s Announce @ [''shutdown'']
    \<and> zmq_context (shutdown s) Startup_ctl = zmq_context s Startup_ctl"
    if "\<not> shutdown_signaled s"
    using that by (simp add: shutdown_def)
  ultimately show ?thesis
    using sig noop [of s] by blast
qed

theorem shutdown_idempotent_witness:
  "\<not> shutdown_signaled example_server
   \<and> zmq_context (shutdown example_server) Dispatch_thread_ctl = [''shutdown'']
   \<and> zmq_context (shutdown example_server) Receive_thread_ctl = [''shutdown'']
   \<and> zmq_context (shutdown example_server) Announce = [''shutdown'']
   \<and> zmq_context (shutdown example_server) Startup_ctl = []
   \<and> shutdown_signaled (shutdown example_server)
   \<and> shutdown (shutdown example_server) = shutdown example_server
   \<and> shutdown (shutdown (shutdown example_server)) = shutdown example_server"
proof -
  have h: "\<not> shutdown_signaled example_server"
    by (simp add: example_server_def)
  have z: "zmq_context example_server = (\<lambda>_. [])"
    by (simp add: example_server_def)
  note first = shutdown_idempotent [of example_server]
  note second = shutdown_idempotent [of "shutdown example_server"]
  from first have sig: "shutdown_signaled (shutdown example_server)"
    by blast
  with second have again: "shutdown (shutdown example_server) = shutdown example_server"
    by blast
  from first h have
    "zmq_context (shutdown example_server) Dispatch_thread_ctl
       = zmq_context example_server Dispatch_thread_ctl @ [''shutdown'']"
    "zmq_context (shutdown example_server) Receive_thread_ctl
       = zmq_context example_server Receive_thread_ctl @ [''shutdown'']"
    "zmq_context (shutdown example_server) Announce
       = zmq_context example_server Announce @ [''shutdown'']"
    "zmq_context (shutdown example_server) Startup_ctl
       = zmq_context example_server Startup_ctl"
    by blast+
  with h sig again show ?thesis
    by (simp add: z)
qed

subsection \<open>The dispatch loop\<close>

declare drain.simps [simp del]

lemma drain_eq:
  "drain s = s\<lparr>task_queue := [],
               master_task_socket := master_task_socket s @ task_queue s\<rparr>"
proof (induction s rule: drain.induct)
  case (1 s)
  show ?case
  proof (cases "task_queue s")
    case Nil
    then show ?thesis
      by (subst drain.simps) (simp add: popleft_send_def)
  next
    case (Cons t rest)
    then have step: "popleft_send s = Some (s\<lparr>task_queue := rest,
        master_task_socket := master_task_socket s @ [t]\<rparr>)"
      by (simp add: popleft_send_def)
    from "1.IH" [OF step] Cons step show ?thesis
      by (subst drain.simps) simp
  qed
qed

lemma make_append_task_fields [simp]:
  "instance_id (make_append_task s new fn args kwargs) = instance_id s"
  "master_task_socket (make_append_task s new fn args kwargs) = master_task_socket s"
  "task_queue (make_append_task s new fn args kwargs)
     = task_queue s @ [task_tuple_of s (snd new) fn args kwargs]"
  by (simp_all add: make_append_task_def split: prod.splits)

lemma signal_thread_frame [simp]:
  "instance_id (signal_thread s ep m) = instance_id s"
  "master_task_socket (signal_thread s ep m) = master_task_socket s"
  "task_queue (signal_thread s ep m) = task_queue s"
  by (simp_all add: signal_thread_def)

lemma task_tuple_of_cong:
  "instance_id s' = instance_id s \<Longrightarrow> task_tuple_of s' = task_tuple_of s"
  by (intro ext) (simp add: task_tuple_of_def)

lemma fold_make_append_task:
  "instance_id (fold (\<lambda>(new, fn, args, kwargs) s'. make_append_task s' new fn args kwargs) tasks s)
     = instance_id s
   \<and> master_task_socket (fold (\<lambda>(new, fn, args, kwargs) s'. make_append_task s' new fn args kwargs) tasks s)
     = master_task_socket s
   \<and> task_queue (fold (\<lambda>(new, fn, args, kwargs) s'. make_append_task s' new fn args kwargs) tasks s)
     = task_queue s @ map (\<lambda>(new, fn, args, kwargs). task_tuple_of s (snd new) fn args kwargs) tasks"
proof (induction tasks arbitrary: s)
  case Nil
  show ?case by simp
next
  case (Cons t tasks)
  obtain new fn args kwargs where t: "t = (new, fn, args, kwargs)"
    by (cases t) auto
  have "task_tuple_of (make_append_task s new fn args kwargs) = task_tuple_of s"
    by (rule task_tuple_of_cong) simp
  with Cons.IH [of "make_append_task s new fn args kwargs"] show ?case
    by (simp add: t)
qed

lemma apply_op_instance_id: "instance_id (apply_op s x) = instance_id s"
  by (cases x)
     (simp_all add: submit_def submit_many_def fold_make_append_task popleft_send_def
        dispatch_body_def drain_eq split: list.splits)

lemma apply_op_fifo:
  "master_task_socket (apply_op s x) @ task_queue (apply_op s x)
     = master_task_socket s @ task_queue s @ appended s x"
  by (cases x)
     (simp_all add: submit_def submit_many_def fold_make_append_task popleft_send_def
        dispatch_body_def drain_eq split: list.splits)

lemma appended_cong: "instance_id s' = instance_id s \<Longrightarrow> appended s' x = appended s x"
  by (cases x) (auto simp: task_tuple_of_def)

lemma foldl_apply_op_fifo:
  "master_task_socket (foldl apply_op s ops) @ task_queue (foldl apply_op s ops)
     = master_task_socket s @ task_queue s @ concat (map (appended s) ops)"
proof (induction ops arbitrary: s)
  case Nil
  show ?case by simp
next
  case (Cons x ops)
  have "appended (apply_op s x) = appended s"
    by (intro ext appended_cong apply_op_instance_id)
  with Cons.IH [of "apply_op s x"] show ?case
    by (simp add: apply_op_fifo)
qed

text \<open>
  Claim C7: in every interleaving of submissions and passes of the dispatch loop, the
  tuples sent on the task channel followed by the tuples still queued are the tuples
  appended, in the order of their submission: each is sent at most once, in FIFO
  order. A drain pass sends the whole queue, head first, and leaves it empty; each
  pass of its inner loop removes the head and sends it once.
\<close>

theorem dispatch_fifo:
  "master_task_socket (foldl apply_op s ops) @ task_queue (foldl apply_op s ops)
     = master_task_socket s @ task_queue s @ concat (map (appended s) ops)
   \<and> drain s = s\<lparr>task_queue := [],
                  master_task_socket := master_task_socket s @ task_queue s\<rparr>
   \<and> popleft_send s =
       (case task_queue s of
          [] \<Rightarrow> None
        | t # rest \<Rightarrow> Some (s\<lparr>task_queue := rest,
            master_task_socket := master_task_socket s @ [t]\<rparr>))"
  by (simp add: foldl_apply_op_fifo drain_eq popleft_send_def)

text \<open>
  Three submissions with a pass of the inner loop and a pass of the outer loop between
  them: the tuples go out in the order of submission.
\<close>

lemma fifo_example_run:
  "master_task_socket (foldl apply_op (example_server\<lparr>pending_futures := Map.empty\<rparr>)
     [Submit (1, PInt 1) (PFun ''add'') (PTuple [PInt 2, PInt 3]) (PTuple []),
      Submit (2, PInt 2) (PFun ''div'') (PTuple [PInt 1, PInt 0]) (PTuple []),
      Popleft_send,
      Submit (3, PInt 3) (PFun ''add'') (PTuple [PInt 1, PInt 1]) (PTuple []),
      Dispatch None])
   = [[PUuid 1, PInt 1, PFun ''add'', PTuple [PInt 2, PInt 3], PTuple []],
      [PUuid 1, PInt 2, PFun ''div'', PTuple [PInt 1, PInt 0], PTuple []],
      [PUuid 1, PInt 3, PFun ''add'', PTuple [PInt 1, PInt 1], PTuple []]]"
  by (simp add: example_server_def submit_def make_append_task_def signal_thread_def
      task_tuple_of_def popleft_send_def dispatch_body_def shutdown_in_def drain_eq)

text \<open>No other operation of the server writes the guard flag of \<open>shutdown\<close>.\<close>

lemma make_append_task_flag: "shutdown_signaled (make_append_task s' new fn args kwargs)
      = shutdown_signaled s'"
  by (simp add: make_append_task_def split: prod.splits)

lemma fold_make_append_task_flag: "shutdown_signaled
      (fold (\<lambda>(new, fn, args, kwargs) s'. make_append_task s' new fn args kwargs) tasks s')
      = shutdown_signaled s'"
proof (induction tasks arbitrary: s')
  case Nil
  show ?case by simp
next
  case (Cons t tasks)
  obtain new fn args kwargs where t: "t = (new, fn, args, kwargs)"
    by (cases t) auto
  show ?case
    by (simp add: t Cons.IH make_append_task_flag)
qed

lemma apply_op_flag: "shutdown_signaled (apply_op s x) = shutdown_signaled s"
proof (cases x)
  case (Submit new fn args kwargs)
  then show ?thesis by (simp add: submit_def make_append_task_flag)
next
  case (Submit_many tasks)
  then show ?thesis by (simp add: submit_many_def fold_make_append_task_flag)
next
  case Popleft_send
  then show ?thesis by (simp add: popleft_send_def split: list.splits)
next
  case (Dispatch ctl)
  then show ?thesis by (simp add: dispatch_body_def drain_eq)
qed

lemma receive_body_flag:
  "shutdown_signaled (state_of (receive_body s ev)) = shutdown_signaled s"
  by (auto simp: receive_body_def handle_result_def log_error_def Let_def
      split: received.splits option.splits sum.splits)

subsection \<open>Malformed messages\<close>

lemma run_body_malformed:
  assumes "length task_tuple < 5"
  shows "run_body call w (Sequence task_tuple)
         = Continue (w\<lparr>worker_logged := worker_logged w @ [Malformed_task]\<rparr>)"
proof -
  from assms have "unpack5 (take 5 task_tuple) = None"
    using unpack5_take [of task_tuple] by blast
  then show ?thesis
    unfolding run_body_def by (simp only: received.case option.case)
qed

lemma handle_result_malformed:
  assumes "length msg \<noteq> 4"
  shows "handle_result s (Sequence msg)
         = Continue (s\<lparr>logged := logged s @ [Malformed_result]\<rparr>)"
proof -
  from assms have "unpack4 msg = None"
    by (simp add: unpack4_None)
  then show ?thesis
    unfolding handle_result_def log_error_def by (simp only: received.case option.case)
qed

text \<open>
  An object that is no sequence ends both loops. The receive loop, reading the integer
  42 (or \<^verbatim>\<open>None\<close>) where a result tuple is expected, leaves with
  \<^verbatim>\<open>TypeError\<close>: nothing is logged and the result that follows is not read. The
  worker, reading such an object where a task tuple is expected, leaves with
  \<^verbatim>\<open>TypeError\<close> and its sockets closed: the task that follows is not run.
\<close>

theorem non_sequence_message_is_fatal:
  "receive_loop example_server
     [\<lparr>ctl_messages = None, result_message = Some Not_a_sequence\<rparr>,
      \<lparr>ctl_messages = None,
       result_message = Some (Sequence [PUuid 1, PInt 7, PStr ''result'', PInt 42])\<rparr>]
   = Raise TypeError example_server
   \<and> run example_call worker_init
     [Not_a_sequence,
      Sequence [PUuid 1, PInt 7, PFun ''add'', PTuple [PInt 2, PInt 3], PTuple []]]
   = Raise TypeError (worker_init\<lparr>result_socket_open := False, task_socket_open := False\<rparr>)"
  by (simp add: receive_body_def shutdown_in_def handle_result_def run_body_def
      close_sockets_def)

text \<open>
  Claim C8, amended: a received message that is a sequence of the wrong length, a
  result with other than four elements or a task with fewer than five, is logged and
  dropped; the state is otherwise unchanged (the registry and the futures of the
  server, the remembered server of the worker) and the loop goes on with the next
  event: such a message is never fatal to either loop.
\<close>

theorem malformed_message_dropped:
  "(length msg \<noteq> 4 \<and> \<not> shutdown_in ctl \<longrightarrow>
      receive_loop s (\<lparr>ctl_messages = ctl, result_message = Some (Sequence msg)\<rparr> # evs)
      = receive_loop (s\<lparr>logged := logged s @ [Malformed_result]\<rparr>) evs)
   \<and> (length task_tuple < 5 \<longrightarrow>
      run call w (Sequence task_tuple # ts)
      = run call (w\<lparr>worker_logged := worker_logged w @ [Malformed_task]\<rparr>) ts)"
  by (simp add: receive_body_def handle_result_malformed run_body_malformed)

theorem malformed_message_dropped_witness:
  "receive_loop example_server
     [\<lparr>ctl_messages = None,
       result_message = Some (Sequence [PUuid 1, PInt 7, PStr ''result''])\<rparr>]
   = Continue (example_server\<lparr>logged := [Malformed_result]\<rparr>)
   \<and> run example_call worker_init [Sequence [PUuid 1, PInt 7, PFun ''add'', PTuple []]]
   = Continue (worker_init\<lparr>worker_logged := [Malformed_task]\<rparr>)"
  using malformed_message_dropped [of "[PUuid 1, PInt 7, PStr ''result'']" None
      example_server "[]" "[PUuid 1, PInt 7, PFun ''add'', PTuple []]" example_call
      worker_init "[]"]
  by (simp add: shutdown_in_def example_server_def worker_init_def)

lemma execute_task_logged:
  "worker_logged (state_of (execute_task call w a b c d e)) = worker_logged w"
  by (simp add: execute_task_def Let_def split: outcome.splits)

lemma run_body_well_formed_logged:
  assumes "\<not> length task_tuple < 5"
  shows "worker_logged (state_of (run_body call w (Sequence task_tuple))) = worker_logged w"
proof -
  from assms have "unpack5 (take 5 task_tuple) \<noteq> None"
    using unpack5_take [of task_tuple] by blast
  then obtain a b c d e where "unpack5 (take 5 task_tuple) = Some (a, b, c, d, e)"
    by (cases "unpack5 (take 5 task_tuple)") auto
  then show ?thesis
    unfolding run_body_def by (simp add: execute_task_logged)
qed

text \<open>
  Claim C10: a task tuple of more than five elements is processed as its first five
  elements are; a tuple is logged as malformed exactly when it has fewer than five.
  An object that is no sequence is not logged as malformed either.
\<close>

theorem worker_ignores_extra_elements:
  "(5 < length task_tuple \<longrightarrow>
      run_body call w (Sequence task_tuple) = run_body call w (Sequence (take 5 task_tuple)))
   \<and> (worker_logged (state_of (run_body call w (Sequence task_tuple)))
        = worker_logged w @ [Malformed_task]
      \<longleftrightarrow> length task_tuple < 5)
   \<and> worker_logged (state_of (run_body call w Not_a_sequence)) = worker_logged w"
proof (cases "length task_tuple < 5")
  case True
  then show ?thesis by (simp add: run_body_malformed) (simp add: run_body_def)
next
  case False
  have "run_body call w (Sequence task_tuple) = run_body call w (Sequence (take 5 task_tuple))"
    unfolding run_body_def by simp
  moreover have "worker_logged (state_of (run_body call w Not_a_sequence)) = worker_logged w"
    by (simp add: run_body_def)
  ultimately show ?thesis
    using False by (simp add: run_body_well_formed_logged)
qed

theorem worker_ignores_extra_elements_witness:
  "run_body example_call worker_init
     (Sequence [PUuid 1, PInt 7, PFun ''add'', PTuple [PInt 2, PInt 3], PTuple [],
        PInt 0, PNone])
   = Continue (worker_init\<lparr>last_seen_server_id := PUuid 1,
       invoked := [(PFun ''add'', PTuple [PInt 2, PInt 3], PTuple [])],
       result_socket := [[PUuid 1, PInt 7, PStr ''result'', PInt 5]]\<rparr>)"
  using worker_ignores_extra_elements [of
      "[PUuid 1, PInt 7, PFun ''add'', PTuple [PInt 2, PInt 3], PTuple [], PInt 0, PNone]"
      example_call worker_init]
  by (simp add: run_body_def execute_task_def worker_init_def example_call_def)

subsection \<open>The startup rendezvous\<close>

lemma UNIV_loop_id: "(UNIV :: loop_id set) = {Dispatcher, Collector, Announcer}"
  by (auto intro: loop_id.exhaust)

lemma three_acks_all:
  assumes "distinct xs" and "length xs = 3"
  shows "set xs = (UNIV :: loop_id set)"
proof -
  have "card (set xs) = 3"
    using assms by (simp add: distinct_card)
  moreover have "card (UNIV :: loop_id set) = 3"
    by (simp add: UNIV_loop_id)
  moreover have "finite (UNIV :: loop_id set)"
    by (simp add: UNIV_loop_id)
  ultimately show ?thesis
    by (metis card_subset_eq subset_UNIV)
qed

lemma startup_inv_init: "startup_inv startup_init"
  by (simp add: startup_inv_def startup_init_def)

lemma startup_inv_returned_all_in_loop:
  assumes "startup_inv s" and "main s = Close_startup \<or> main s = Returned"
  shows "\<forall>l. loop s l = In_loop" and "rendezvous s = []"
proof -
  from assms have d: "distinct (acks_received s)" and n: "length (acks_received s) = 3"
    and e: "\<forall>l. l \<in> set (acks_received s @ rendezvous s) \<longleftrightarrow> loop s l = In_loop"
    and dd: "distinct (acks_received s @ rendezvous s)"
    by (auto simp: startup_inv_def)
  from d n have u: "set (acks_received s) = UNIV" by (rule three_acks_all)
  with e show "\<forall>l. loop s l = In_loop" by auto
  from u dd show "rendezvous s = []"
    by (cases "rendezvous s") auto
qed


lemma endpoints_not_startup [simp]:
  "public_endpoint l \<noteq> Startup_ctl" "ctl_endpoint l \<noteq> Startup_ctl"
  "Startup_ctl \<noteq> public_endpoint l" "Startup_ctl \<noteq> ctl_endpoint l"
  by (cases l; simp)+

lemma main_step_inv:
  assumes "startup_inv s" and "main_step (main s) s = Some s'"
  shows "startup_inv s'"
proof (cases "main s")
  case Bind_startup
  with assms show ?thesis
    by (auto simp: startup_inv_def split: if_splits)
next
  case Start_dispatch
  with assms show ?thesis
    by (auto simp: startup_inv_def start_thread_def split: if_splits)
next
  case Start_receive
  with assms show ?thesis
    by (auto simp: startup_inv_def start_thread_def split: if_splits)
next
  case Start_announce
  with assms show ?thesis
    by (auto simp: startup_inv_def start_thread_def split: if_splits)
next
  case Recv_first
  with assms show ?thesis
    by (auto simp: startup_inv_def ctl_recv_def split: list.splits if_splits)
next
  case Recv_second
  with assms show ?thesis
    by (auto simp: startup_inv_def ctl_recv_def split: list.splits if_splits)
next
  case Recv_third
  with assms show ?thesis
    by (auto simp: startup_inv_def ctl_recv_def split: list.splits if_splits)
next
  case Close_startup
  with assms show ?thesis
    by (auto simp: startup_inv_def split: if_splits)
next
  case Returned
  with assms show ?thesis by simp
qed

lemma loop_step_inv:
  assumes "startup_inv s" and "loop_step l (loop s l) s = Some s'"
  shows "startup_inv s'"
proof -
  from assms(1) have
    i1: "distinct (acks_received s @ rendezvous s)" and
    i2: "\<And>l'. l' \<in> set (acks_received s @ rendezvous s) \<longleftrightarrow> loop s l' = In_loop" and
    i3: "length (acks_received s) = acks_expected (main s)" and
    i4: "Startup_ctl \<in> bound s \<longleftrightarrow> main s \<noteq> Bind_startup \<and> main s \<noteq> Returned" and
    i5: "\<And>l'. loop s l' \<noteq> Not_started \<longleftrightarrow> l' \<in> started_by (main s)" and
    i6: "\<And>l'. loop s l' \<noteq> Crashed" and
    i7: "\<And>l'. loop s l' = Bind_ctl \<or> loop s l' = Signal_startup \<or> loop s l' = In_loop
          \<Longrightarrow> public_endpoint l' \<in> bound s" and
    i8: "\<And>l'. loop s l' = Signal_startup \<or> loop s l' = In_loop
          \<Longrightarrow> ctl_endpoint l' \<in> bound s"
    unfolding startup_inv_def by blast+
  have started: "l \<in> started_by (main s)" if "loop s l \<noteq> Not_started"
    using i5 [of l] that by simp
  have fresh: "l \<notin> set (acks_received s @ rendezvous s)" if "loop s l \<noteq> In_loop"
    using i2 [of l] that by simp
  show ?thesis
  proof (cases "loop s l")
    case Not_started
    with assms show ?thesis by simp
  next
    case Bind_public
    let ?s' = "s\<lparr>loop := (loop s)(l := Bind_ctl),
        bound := insert (public_endpoint l) (bound s)\<rparr>"
    from Bind_public assms(2) have s': "s' = ?s'" by simp
    show ?thesis
      unfolding startup_inv_def s'
    proof (intro conjI allI)
      fix l'
      show "l' \<in> set (acks_received ?s' @ rendezvous ?s') \<longleftrightarrow> loop ?s' l' = In_loop"
        using i2 [of l'] fresh Bind_public by (cases "l' = l") simp_all
      show "loop ?s' l' \<noteq> Not_started \<longleftrightarrow> l' \<in> started_by (main ?s')"
        using i5 [of l'] started Bind_public by (cases "l' = l") simp_all
      show "loop ?s' l' \<noteq> Crashed"
        using i6 [of l'] by (cases "l' = l") simp_all
      show "loop ?s' l' = Bind_ctl \<or> loop ?s' l' = Signal_startup \<or> loop ?s' l' = In_loop
          \<longrightarrow> public_endpoint l' \<in> bound ?s'"
        using i7 [of l'] by (cases "l' = l") auto
      show "loop ?s' l' = Signal_startup \<or> loop ?s' l' = In_loop
          \<longrightarrow> ctl_endpoint l' \<in> bound ?s'"
        using i8 [of l'] by (cases "l' = l") auto
    qed (use i1 i3 i4 in simp_all)
  next
    case Bind_ctl
    let ?s' = "s\<lparr>loop := (loop s)(l := Signal_startup),
        bound := insert (ctl_endpoint l) (bound s)\<rparr>"
    from Bind_ctl assms(2) have s': "s' = ?s'" by simp
    show ?thesis
      unfolding startup_inv_def s'
    proof (intro conjI allI)
      fix l'
      show "l' \<in> set (acks_received ?s' @ rendezvous ?s') \<longleftrightarrow> loop ?s' l' = In_loop"
        using i2 [of l'] fresh Bind_ctl by (cases "l' = l") simp_all
      show "loop ?s' l' \<noteq> Not_started \<longleftrightarrow> l' \<in> started_by (main ?s')"
        using i5 [of l'] started Bind_ctl by (cases "l' = l") simp_all
      show "loop ?s' l' \<noteq> Crashed"
        using i6 [of l'] by (cases "l' = l") simp_all
      show "loop ?s' l' = Bind_ctl \<or> loop ?s' l' = Signal_startup \<or> loop ?s' l' = In_loop
          \<longrightarrow> public_endpoint l' \<in> bound ?s'"
        using i7 [of l'] Bind_ctl by (cases "l' = l") auto
      show "loop ?s' l' = Signal_startup \<or> loop ?s' l' = In_loop
          \<longrightarrow> ctl_endpoint l' \<in> bound ?s'"
        using i8 [of l'] by (cases "l' = l") auto
    qed (use i1 i3 i4 in simp_all)
  next
    case Signal_startup
    have "main s \<noteq> Returned"
      using startup_inv_returned_all_in_loop(1) [OF assms(1)] Signal_startup by auto
    moreover have "main s \<noteq> Bind_startup"
      using started Signal_startup by auto
    ultimately have b: "Startup_ctl \<in> bound s"
      using i4 by simp
    let ?s' = "s\<lparr>loop := (loop s)(l := In_loop), rendezvous := rendezvous s @ [l]\<rparr>"
    from Signal_startup assms(2) b have s': "s' = ?s'" by simp
    show ?thesis
      unfolding startup_inv_def s'
    proof (intro conjI allI)
      show "distinct (acks_received ?s' @ rendezvous ?s')"
        using i1 fresh Signal_startup by simp
      fix l'
      show "l' \<in> set (acks_received ?s' @ rendezvous ?s') \<longleftrightarrow> loop ?s' l' = In_loop"
        using i2 [of l'] by (cases "l' = l") simp_all
      show "loop ?s' l' \<noteq> Not_started \<longleftrightarrow> l' \<in> started_by (main ?s')"
        using i5 [of l'] started Signal_startup by (cases "l' = l") simp_all
      show "loop ?s' l' \<noteq> Crashed"
        using i6 [of l'] by (cases "l' = l") simp_all
      show "loop ?s' l' = Bind_ctl \<or> loop ?s' l' = Signal_startup \<or> loop ?s' l' = In_loop
          \<longrightarrow> public_endpoint l' \<in> bound ?s'"
        using i7 [of l'] Signal_startup by (cases "l' = l") auto
      show "loop ?s' l' = Signal_startup \<or> loop ?s' l' = In_loop
          \<longrightarrow> ctl_endpoint l' \<in> bound ?s'"
        using i8 [of l'] Signal_startup by (cases "l' = l") auto
    qed (use i3 i4 in simp_all)
  next
    case In_loop
    with assms show ?thesis by simp
  next
    case Crashed
    with assms show ?thesis by simp
  qed
qed

lemma thread_step_inv:
  "startup_inv s \<Longrightarrow> thread_step t s = Some s' \<Longrightarrow> startup_inv s'"
  by (cases t) (auto intro: main_step_inv loop_step_inv)

lemma schedule_inv:
  "startup_inv s \<Longrightarrow> schedule s ts = Some s' \<Longrightarrow> startup_inv s'"
proof (induction ts arbitrary: s)
  case Nil
  then show ?case by simp
next
  case (Cons t ts)
  then show ?case
    by (auto split: option.splits dest: thread_step_inv)
qed

text \<open>
  Claim C6: in every run, once \<^verbatim>\<open>startup()\<close> has returned, each of the three
  loops has bound its public and its control endpoint and has signalled;
  \<^verbatim>\<open>startup()\<close> has read exactly three acknowledgments, one of each loop, none is
  left in the queue, and the startup socket is closed.
\<close>

theorem startup_waits_for_three_acknowledgments:
  assumes "schedule startup_init ts = Some s" and "main s = Returned"
  shows "(\<forall>l. loop s l = In_loop
            \<and> public_endpoint l \<in> bound s \<and> ctl_endpoint l \<in> bound s)
       \<and> length (acks_received s) = 3
       \<and> set (acks_received s) = UNIV
       \<and> rendezvous s = []
       \<and> Startup_ctl \<notin> bound s"
proof -
  from startup_inv_init assms(1) have inv: "startup_inv s"
    by (rule schedule_inv)
  from startup_inv_returned_all_in_loop [OF inv] assms(2)
  have all: "\<forall>l. loop s l = In_loop" and empty: "rendezvous s = []"
    by simp_all
  from inv assms(2) have n: "length (acks_received s) = 3"
    and closed: "Startup_ctl \<notin> bound s"
    by (simp_all add: startup_inv_def)
  from inv have "distinct (acks_received s)"
    by (simp add: startup_inv_def)
  then have u: "set (acks_received s) = UNIV"
    using n by (rule three_acks_all)
  from inv all have "\<forall>l. public_endpoint l \<in> bound s \<and> ctl_endpoint l \<in> bound s"
    by (simp add: startup_inv_def)
  with all n u empty closed show ?thesis by simp
qed

theorem startup_waits_for_three_acknowledgments_witness:
  "acks_received (the (schedule startup_init example_schedule))
     = [Collector, Dispatcher, Announcer]
   \<and> main (the (schedule startup_init example_schedule)) = Returned
   \<and> loop (the (schedule startup_init example_schedule)) Dispatcher = In_loop
   \<and> loop (the (schedule startup_init example_schedule)) Collector = In_loop
   \<and> loop (the (schedule startup_init example_schedule)) Announcer = In_loop"
proof -
  have run: "schedule startup_init example_schedule = Some
     \<lparr>main = Returned, loop = (\<lambda>_. In_loop),
      bound = {Master_task, Master_result, Master_announce,
               Dispatch_thread_ctl, Receive_thread_ctl, Announce},
      rendezvous = [], acks_received = [Collector, Dispatcher, Announcer]\<rparr>"
    by (simp add: example_schedule_def startup_init_def start_thread_def ctl_recv_def
        fun_eq_iff UNIV_loop_id) (auto intro: loop_id.exhaust)
  from startup_waits_for_three_acknowledgments [OF run] show ?thesis
    by (simp add: run)
qed

end
